theory Spec2Isabelle
  imports Main "HOL-Library.Sublist"
begin

section \<open>Python string and sequence primitives used by the parser\<close>

text \<open>
  Python strings are modelled as \<^typ>\<open>string\<close> (lists of characters), token-id
  sequences as \<^typ>\<open>int list\<close>. The functions below model the built-in operations
  the parser calls: \<open>str.find\<close>, \<open>str.rfind\<close>, slicing with possibly negative
  bounds, \<open>str.lstrip("\n")\<close>, \<open>str.partition\<close>, \<open>str.startswith\<close>
  and the substring test \<open>in\<close>.
\<close>

datatype py_error = ValueError | RuntimeError | IndexError

text \<open>Position of the first occurrence of \<open>sub\<close> in the string, if any.\<close>

fun find_first :: "'a list \<Rightarrow> 'a list \<Rightarrow> nat option" where
  "find_first sub [] = (if sub = [] then Some 0 else None)"
| "find_first sub (x # xs) =
     (if prefix sub (x # xs) then Some 0 else map_option Suc (find_first sub xs))"

text \<open>Position of the last occurrence of \<open>sub\<close> in the string, if any.\<close>

fun find_last :: "'a list \<Rightarrow> 'a list \<Rightarrow> nat option" where
  "find_last sub [] = (if sub = [] then Some 0 else None)"
| "find_last sub (x # xs) =
     (case find_last sub xs of
        Some k \<Rightarrow> Some (Suc k)
      | None \<Rightarrow> (if prefix sub (x # xs) then Some 0 else None))"

text \<open>\<open>s.find(sub)\<close> and \<open>s.rfind(sub)\<close>: the index, or \<open>-1\<close> when absent.\<close>

definition py_find :: "string \<Rightarrow> string \<Rightarrow> int" where
  "py_find s sub = (case find_first sub s of None \<Rightarrow> - 1 | Some k \<Rightarrow> int k)"

definition py_rfind :: "string \<Rightarrow> string \<Rightarrow> int" where
  "py_rfind s sub = (case find_last sub s of None \<Rightarrow> - 1 | Some k \<Rightarrow> int k)"

text \<open>\<open>sub in s\<close> for strings.\<close>

definition py_contains :: "string \<Rightarrow> string \<Rightarrow> bool" where
  "py_contains s sub = (find_first sub s \<noteq> None)"

text \<open>
  Slice bounds as Python normalises them: a negative bound counts from the end, and
  the result is clamped to \<open>0 .. len(s)\<close>.
\<close>

definition py_bound :: "nat \<Rightarrow> int \<Rightarrow> nat" where
  "py_bound n i = (if i < 0 then nat (int n + i) else min (nat i) n)"

text \<open>\<open>s[:j]\<close>, \<open>s[i:]\<close> and \<open>s[i:j]\<close>.\<close>

definition py_slice_to :: "'a list \<Rightarrow> int \<Rightarrow> 'a list" where
  "py_slice_to s j = take (py_bound (length s) j) s"

definition py_slice_from :: "'a list \<Rightarrow> int \<Rightarrow> 'a list" where
  "py_slice_from s i = drop (py_bound (length s) i) s"

definition py_slice :: "'a list \<Rightarrow> int \<Rightarrow> int \<Rightarrow> 'a list" where
  "py_slice s i j = drop (py_bound (length s) i) (take (py_bound (length s) j) s)"

text \<open>\<open>s.lstrip("\n")\<close>: all leading newline characters removed.\<close>

definition lstrip_nl :: "string \<Rightarrow> string" where
  "lstrip_nl s = dropWhile (\<lambda>c. c = CHR 0x0A) s"

text \<open>\<open>s.startswith("\n")\<close>.\<close>

definition startswith_nl :: "string \<Rightarrow> bool" where
  "startswith_nl s = (case s of [] \<Rightarrow> False | c # _ \<Rightarrow> c = CHR 0x0A)"

text \<open>
  \<open>s.partition(sep)\<close>: the part before the first occurrence of \<open>sep\<close>, the separator,
  and the part after it; \<open>(s, "", "")\<close> when the separator does not occur.
\<close>

definition py_partition :: "string \<Rightarrow> string \<Rightarrow> string \<times> string \<times> string" where
  "py_partition s sep =
     (case find_first sep s of
        None \<Rightarrow> (s, [], [])
      | Some k \<Rightarrow> (take k s, sep, drop (k + length sep) s))"

text \<open>\<open>x if x else None\<close> and \<open>x or None\<close> on a string: the empty string is falsy.\<close>

definition or_none :: "string \<Rightarrow> string option" where
  "or_none s = (if s = [] then None else Some s)"

text \<open>
  \<open>x in ids\<close> where \<open>x\<close> is an optional token id (the result of \<open>vocab.get\<close>) and
  \<open>ids\<close> a sequence of integers: \<open>None\<close> equals no integer.
\<close>

definition id_in :: "int option \<Rightarrow> int list \<Rightarrow> bool" where
  "id_in x ids = (case x of None \<Rightarrow> False | Some v \<Rightarrow> v \<in> set ids)"

section \<open>The Ernie45 reasoning parser\<close>

subsection \<open>Marker strings (class attributes)\<close>

definition think_start_token :: string where
  "think_start_token = ''<think>''"

definition think_end_token :: string where
  "think_end_token = ''</think>''"

definition response_start_token :: string where
  "response_start_token = ''<response>''"

definition response_end_token :: string where
  "response_end_token = ''</response>''"

definition tool_call_start_token :: string where
  "tool_call_start_token = ''<tool_call>''"

definition tool_call_end_token :: string where
  "tool_call_end_token = ''</tool_call>''"

definition newline_token :: string where
  "newline_token = ''<0x0A>''"

subsection \<open>Parser object and construction\<close>

text \<open>
  The instance attributes set by \<open>__init__\<close>. Every id is the result of
  \<open>self.vocab.get(...)\<close>, hence optional.
\<close>

record Ernie45ReasoningParser =
  think_start_token_id :: "int option"
  think_end_token_id :: "int option"
  response_start_token_id :: "int option"
  response_end_token_id :: "int option"
  tool_call_start_token_id :: "int option"
  tool_call_end_token_id :: "int option"
  newline_token_id :: "int option"
  parser_token_ids :: "int option list"

text \<open>
  \<open>__init__(self, tokenizer)\<close>. The base class (not part of the file) stores the
  tokenizer as \<open>self.model_tokenizer\<close> and exposes its vocabulary as \<open>self.vocab\<close>;
  the tokenizer is therefore taken as an optional vocabulary, \<open>None\<close> standing for a
  missing (falsy) tokenizer. The checks are in the order of the source: the tokenizer
  test first, then the lookups, then the test of the two mandatory ids.
\<close>

definition init :: "(string \<rightharpoonup> int) option \<Rightarrow> py_error + Ernie45ReasoningParser" where
  "init tokenizer =
     (case tokenizer of
        None \<Rightarrow> Inl ValueError
      | Some vocab \<Rightarrow>
          (let ts = vocab think_start_token;
               te = vocab think_end_token;
               rs = vocab response_start_token;
               re = vocab response_end_token;
               tcs = vocab tool_call_start_token;
               tce = vocab tool_call_end_token;
               nl = vocab newline_token
           in if ts = None \<or> te = None then Inl RuntimeError
              else Inr \<lparr> think_start_token_id = ts, think_end_token_id = te,
                         response_start_token_id = rs, response_end_token_id = re,
                         tool_call_start_token_id = tcs, tool_call_end_token_id = tce,
                         newline_token_id = nl,
                         parser_token_ids = [ts, te, rs, re, tcs, tce] \<rparr>))"

subsection \<open>Boundary utilities\<close>

definition is_reasoning_end :: "Ernie45ReasoningParser \<Rightarrow> int list \<Rightarrow> bool" where
  "is_reasoning_end p input_ids = id_in (think_end_token_id p) input_ids"

text \<open>\<open>xs.index(x)\<close>: the first position of \<open>x\<close>, or \<open>ValueError\<close>.\<close>

fun index_of :: "int option \<Rightarrow> int list \<Rightarrow> nat option" where
  "index_of x [] = None"
| "index_of x (y # ys) =
     (if x = Some y then Some 0 else map_option Suc (index_of x ys))"

definition extract_content_ids :: "Ernie45ReasoningParser \<Rightarrow> int list \<Rightarrow> py_error + int list" where
  "extract_content_ids p input_ids =
     (if \<not> id_in (think_end_token_id p) (butlast input_ids) then Inr []
      else (case index_of (think_end_token_id p) input_ids of
              None \<Rightarrow> Inl ValueError
            | Some k \<Rightarrow> Inr (drop (k + 1) input_ids)))"

subsection \<open>Streaming extraction\<close>

record DeltaMessage =
  reasoning_content :: "string option"
  content :: "string option"

text \<open>
  One streaming call. The result is \<open>Inr None\<close> for \<open>return None\<close>,
  \<open>Inr (Some m)\<close> for a returned \<open>DeltaMessage\<close>, and \<open>Inl IndexError\<close> where
  \<open>previous_token_ids[-1]\<close> would be read from an empty sequence.
\<close>

definition extract_reasoning_content_streaming ::
  "Ernie45ReasoningParser \<Rightarrow> string \<Rightarrow> string \<Rightarrow> string \<Rightarrow>
   int list \<Rightarrow> int list \<Rightarrow> int list \<Rightarrow> py_error + DeltaMessage option" where
  "extract_reasoning_content_streaming p previous_text current_text delta_text
     previous_token_ids current_token_ids delta_token_ids =
    (if length delta_token_ids = 1 \<and>
        Some (hd delta_token_ids) \<in> set [think_start_token_id p, think_end_token_id p,
                                          response_start_token_id p, response_end_token_id p]
     then Inr None
     else if id_in (think_end_token_id p) delta_token_ids then
       (let think_end_index = py_find delta_text think_end_token;
            reasoning = py_slice_to delta_text think_end_index;
            c0 = py_slice_from delta_text (think_end_index + int (length think_end_token));
            c1 = lstrip_nl c0;
            response_start_idx = py_find c1 response_start_token;
            response_end_idx = py_rfind c1 response_end_token;
            c2 = (if response_start_idx \<noteq> - 1
                  then py_slice_from c1 (response_start_idx + int (length response_start_token))
                  else c1);
            c3 = (if response_end_idx \<noteq> - 1 then py_slice_to c2 response_end_idx else c2)
        in Inr (Some \<lparr> reasoning_content = Some reasoning, content = or_none c3 \<rparr>))
     else if id_in (think_end_token_id p) previous_token_ids then
       (let c0 = delta_text;
            c1 = (if id_in (response_start_token_id p) delta_token_ids then
                    (let a = lstrip_nl c0;
                         response_start_idx = py_find a response_start_token;
                         b = py_slice_from a (response_start_idx + int (length response_start_token));
                         response_end_idx = py_rfind b response_end_token
                     in if response_end_idx \<noteq> - 1 then py_slice_to b response_end_idx else b)
                  else if id_in (response_end_token_id p) delta_token_ids then
                    (let response_end_idx = py_rfind c0 response_end_token
                     in py_slice_to c0 response_end_idx)
                  else c0)
        in if previous_token_ids = [] then Inl IndexError
           else
             (let c2 = (if Some (last previous_token_ids) \<in> set (parser_token_ids p) \<and>
                           (length delta_token_ids > 0 \<and>
                            Some (hd delta_token_ids) = newline_token_id p)
                        then lstrip_nl c1 else c1);
                  c3 = (if (length previous_token_ids > 1 \<and>
                            Some (previous_token_ids ! (length previous_token_ids - 2))
                              = think_end_token_id p) \<and>
                           (length delta_token_ids > 0 \<and>
                            Some (hd delta_token_ids) = newline_token_id p)
                        then lstrip_nl c2 else c2)
              in Inr (Some \<lparr> reasoning_content = None, content = or_none c3 \<rparr>)))
     else Inr (Some \<lparr> reasoning_content = Some delta_text, content = None \<rparr>))"

subsection \<open>Batch extraction\<close>

text \<open>
  \<open>extract_reasoning_content(model_output, request)\<close>; the request is not inspected.
  The result is the pair \<open>(reasoning_content, content)\<close>.
\<close>

definition extract_reasoning_content :: "string \<Rightarrow> string option \<times> string option" where
  "extract_reasoning_content model_output =
     (let model_output_parts = py_partition model_output think_start_token;
          mo = (if fst (snd model_output_parts) \<noteq> []
                then snd (snd model_output_parts) else fst model_output_parts)
      in if \<not> py_contains mo think_end_token then (Some mo, None)
         else
           (let parts = py_partition mo think_end_token;
                reasoning = fst parts;
                c0 = snd (snd parts);
                c1 = (if c0 \<noteq> [] then
                        (let start_idx = py_find c0 response_start_token;
                             end_idx = py_rfind c0 response_end_token
                         in if start_idx \<noteq> - 1 \<and> end_idx \<noteq> - 1 \<and> start_idx < end_idx then
                              (let c = py_slice c0 (start_idx + int (length response_start_token)) end_idx
                               in if startswith_nl c then py_slice_from c 1 else c)
                            else c0)
                      else c0)
            in (Some reasoning, or_none c1)))"

section \<open>Vocabulary for stating the properties\<close>

text \<open>
  Occurrences of a marker inside a text, independent of the search functions above:
  \<open>occurs_at sub s k\<close> says that \<open>sub\<close> starts at position \<open>k\<close> of \<open>s\<close>;
  \<open>first_at\<close> and \<open>last_at\<close> single out the first and the last such position,
  and \<open>absent\<close> says that there is none.
\<close>

definition occurs_at :: "'a list \<Rightarrow> 'a list \<Rightarrow> nat \<Rightarrow> bool" where
  "occurs_at sub s k = (k \<le> length s \<and> prefix sub (drop k s))"

definition first_at :: "'a list \<Rightarrow> 'a list \<Rightarrow> nat \<Rightarrow> bool" where
  "first_at sub s k = (occurs_at sub s k \<and> list_all (\<lambda>j. \<not> occurs_at sub s j) [0..<k])"

definition last_at :: "'a list \<Rightarrow> 'a list \<Rightarrow> nat \<Rightarrow> bool" where
  "last_at sub s k =
     (occurs_at sub s k \<and> list_all (\<lambda>j. \<not> occurs_at sub s j) [Suc k..<Suc (length s)])"

definition absent :: "'a list \<Rightarrow> 'a list \<Rightarrow> bool" where
  "absent sub s = list_all (\<lambda>j. \<not> occurs_at sub s j) [0..<Suc (length s)]"

text \<open>
  \<open>think_start_stripped s mo\<close>: \<open>mo\<close> is \<open>s\<close> with everything up to and including
  its first think_start marker dropped, or \<open>s\<close> itself when it has no such marker.
  \<open>strip_one_nl\<close> removes exactly one leading newline character, if there is one.
\<close>

definition think_start_stripped :: "string \<Rightarrow> string \<Rightarrow> bool" where
  "think_start_stripped s mo =
     (if absent think_start_token s then mo = s
      else list_ex (\<lambda>k. first_at think_start_token s k \<and>
                         mo = drop (k + length think_start_token) s) [0..<Suc (length s)])"

definition strip_one_nl :: "string \<Rightarrow> string" where
  "strip_one_nl s = (case s of [] \<Rightarrow> [] | c # r \<Rightarrow> if c = CHR 0x0A then r else s)"

subsection \<open>Replaying a stream\<close>









text \<open>
  \<open>suppressed\<close> is the guard of the first branch of the streaming function: the
  delta is a single token that is one of the four think/response markers.
\<close>

definition suppressed :: "Ernie45ReasoningParser \<Rightarrow> int list \<Rightarrow> bool" where
  "suppressed p di =
     (length di = 1 \<and> Some (hd di) \<in> set [think_start_token_id p, think_end_token_id p,
                                           response_start_token_id p, response_end_token_id p])"





text \<open>
  Deltas after the end of thinking. \<open>ordinary\<close>: not suppressed and carrying none
  of the think_end, response_start and response_end ids. \<open>newline_rule p pi di\<close>:
  the delta starts with the newline token and either the last previous id is one of
  \<open>parser_token_ids\<close> or the one before it is think_end (the two tests at the end of
  the streaming function). A delta is \<open>verbatim\<close> when its whole text is due as
  content (no text if suppressed; not starting with a newline if the newline rule
  applies), \<open>silent\<close> when nothing is due (suppressed, or without text, or all
  newlines with the newline rule applying), and \<open>stripped_one\<close> when the newline
  rule applies to a non-empty text from which it removes exactly one newline.
  \<open>delta_run P pi ds\<close> says that every delta of \<open>ds\<close> is of kind \<open>P\<close> with
  respect to the ids that precede it, \<open>pi\<close> being the ids before the first.
\<close>

definition ordinary :: "Ernie45ReasoningParser \<Rightarrow> int list \<Rightarrow> bool" where
  "ordinary p di =
     (\<not> suppressed p di \<and> \<not> id_in (think_end_token_id p) di
      \<and> \<not> id_in (response_start_token_id p) di \<and> \<not> id_in (response_end_token_id p) di)"

definition newline_rule :: "Ernie45ReasoningParser \<Rightarrow> int list \<Rightarrow> int list \<Rightarrow> bool" where
  "newline_rule p pi di =
     (di \<noteq> [] \<and> Some (hd di) = newline_token_id p \<and> pi \<noteq> [] \<and>
      (Some (last pi) \<in> set (parser_token_ids p)
       \<or> (length pi > 1 \<and> Some (pi ! (length pi - 2)) = think_end_token_id p)))"














text \<open>
  A concrete vocabulary that resolves all seven markers, the parser constructed from
  it, a vocabulary that resolves only the two mandatory markers, and the parser
  constructed from that. They serve as concrete inputs below.
\<close>

definition example_vocab :: "string \<rightharpoonup> int" where
  "example_vocab = map_of [(''<think>'', 1), (''</think>'', 2), (''<response>'', 3),
     (''</response>'', 4), (''<tool_call>'', 5), (''</tool_call>'', 6), (''<0x0A>'', 7)]"

definition example_parser :: Ernie45ReasoningParser where
  "example_parser = \<lparr> think_start_token_id = Some 1, think_end_token_id = Some 2,
      response_start_token_id = Some 3, response_end_token_id = Some 4,
      tool_call_start_token_id = Some 5, tool_call_end_token_id = Some 6,
      newline_token_id = Some 7,
      parser_token_ids = [Some 1, Some 2, Some 3, Some 4, Some 5, Some 6] \<rparr>"

definition minimal_vocab :: "string \<rightharpoonup> int" where
  "minimal_vocab = map_of [(''<think>'', 1), (''</think>'', 2)]"





definition minimal_parser :: Ernie45ReasoningParser where
  "minimal_parser = \<lparr> think_start_token_id = Some 1, think_end_token_id = Some 2,
      response_start_token_id = None, response_end_token_id = None,
      tool_call_start_token_id = None, tool_call_end_token_id = None,
      newline_token_id = None,
      parser_token_ids = [Some 1, Some 2, None, None, None, None] \<rparr>"

section \<open>Facts about the primitives\<close>

lemmas token_defs =
  think_start_token_def think_end_token_def response_start_token_def
  response_end_token_def tool_call_start_token_def tool_call_end_token_def
  newline_token_def

subsection \<open>The search functions find the first and the last occurrence\<close>


lemma occurs_at_Cons_Suc: "occurs_at sub (x # xs) (Suc k) = occurs_at sub xs k"
  by (simp add: occurs_at_def)

lemma occurs_at_0: "occurs_at sub s 0 = prefix sub s"
  by (simp add: occurs_at_def)

lemma occurs_at_le: "occurs_at sub s k \<Longrightarrow> k \<le> length s"
  by (simp add: occurs_at_def)

lemma first_at_iff: "first_at sub s k \<longleftrightarrow> occurs_at sub s k \<and> (\<forall>j<k. \<not> occurs_at sub s j)"
  by (auto simp: first_at_def list_all_iff)

lemma last_at_iff: "last_at sub s k \<longleftrightarrow> occurs_at sub s k \<and> (\<forall>j>k. \<not> occurs_at sub s j)"
  by (auto simp: last_at_def list_all_iff occurs_at_def less_Suc_eq_le Suc_le_eq)

lemma absent_iff: "absent sub s \<longleftrightarrow> (\<forall>j. \<not> occurs_at sub s j)"
  by (auto simp: absent_def list_all_iff occurs_at_def less_Suc_eq_le)

lemma find_first_Some: "find_first sub s = Some k \<Longrightarrow> first_at sub s k"
proof (induction s arbitrary: k)
  case Nil
  then show ?case by (auto simp: first_at_iff occurs_at_def split: if_splits)
next
  case (Cons x xs)
  show ?case
  proof (cases "prefix sub (x # xs)")
    case True
    with Cons.prems show ?thesis by (simp add: first_at_iff occurs_at_0)
  next
    case False
    with Cons.prems obtain k' where k': "find_first sub xs = Some k'" "k = Suc k'"
      by auto
    from Cons.IH[OF k'(1)] have "first_at sub xs k'" .
    with False k'(2) show ?thesis
      by (auto simp: first_at_iff occurs_at_Cons_Suc occurs_at_0 less_Suc_eq_0_disj)
  qed
qed

lemma find_first_None: "find_first sub s = None \<Longrightarrow> absent sub s"
proof (induction s)
  case Nil
  then show ?case by (auto simp: absent_iff occurs_at_def split: if_splits)
next
  case (Cons x xs)
  then have np: "\<not> prefix sub (x # xs)" and "absent sub xs"
    by (auto split: if_splits)
  then show ?case
    unfolding absent_iff
    by (metis occurs_at_0 occurs_at_Cons_Suc not0_implies_Suc)
qed

lemma first_at_unique: "first_at sub s k \<Longrightarrow> first_at sub s k' \<Longrightarrow> k = k'"
  by (meson first_at_iff linorder_neqE_nat)

lemma last_at_unique: "last_at sub s k \<Longrightarrow> last_at sub s k' \<Longrightarrow> k = k'"
  by (meson last_at_iff linorder_neqE_nat)

lemma first_at_find_first: "first_at sub s k \<Longrightarrow> find_first sub s = Some k"
proof (cases "find_first sub s")
  case None
  assume "first_at sub s k"
  with find_first_None[OF None] show ?thesis by (simp add: absent_iff first_at_iff)
next
  case (Some a)
  assume "first_at sub s k"
  with find_first_Some[OF Some] show ?thesis using Some first_at_unique by blast
qed

lemma absent_find_first: "absent sub s \<Longrightarrow> find_first sub s = None"
proof (cases "find_first sub s")
  case None
  then show ?thesis by simp
next
  case (Some a)
  assume "absent sub s"
  with find_first_Some[OF Some] show ?thesis by (simp add: absent_iff first_at_iff)
qed

lemma find_last_None: "find_last sub s = None \<Longrightarrow> absent sub s"
proof (induction s)
  case Nil
  then show ?case by (auto simp: absent_iff occurs_at_def split: if_splits)
next
  case (Cons x xs)
  then have np: "\<not> prefix sub (x # xs)" and "absent sub xs"
    by (auto split: if_splits option.splits)
  then show ?case
    unfolding absent_iff
    by (metis occurs_at_0 occurs_at_Cons_Suc not0_implies_Suc)
qed

lemma find_last_Some: "find_last sub s = Some k \<Longrightarrow> last_at sub s k"
proof (induction s arbitrary: k)
  case Nil
  then show ?case by (auto simp: last_at_iff occurs_at_def split: if_splits)
next
  case (Cons x xs)
  show ?case
  proof (cases "find_last sub xs")
    case None
    have "absent sub xs" by (rule find_last_None[OF None])
    with None Cons.prems show ?thesis 
      apply (auto simp: last_at_iff occurs_at_0 absent_iff split: if_splits)
      by (metis occurs_at_Cons_Suc Suc_pred)
  next
    case (Some k')
    from Cons.IH[OF Some] have "last_at sub xs k'" .
    with Some Cons.prems show ?thesis
      apply (auto simp: last_at_iff occurs_at_Cons_Suc)
      by (metis Suc_lessE occurs_at_Cons_Suc)
  qed
qed


lemma last_at_find_last: "last_at sub s k \<Longrightarrow> find_last sub s = Some k"
proof (cases "find_last sub s")
  case None
  assume "last_at sub s k"
  with find_last_None[OF None] show ?thesis by (simp add: absent_iff last_at_iff)
next
  case (Some a)
  assume "last_at sub s k"
  with find_last_Some[OF Some] show ?thesis using Some last_at_unique by blast
qed


subsection \<open>Batch extraction in terms of occurrences\<close>

lemma think_start_stripped_partition:
  assumes "think_start_stripped s mo"
  shows "(let parts = py_partition s think_start_token
          in if fst (snd parts) \<noteq> [] then snd (snd parts) else fst parts) = mo"
proof (cases "absent think_start_token s")
  case True
  with assms have "mo = s" by (simp add: think_start_stripped_def)
  with absent_find_first[OF True] show ?thesis by (simp add: py_partition_def)
next
  case False
  with assms obtain k where k: "first_at think_start_token s k"
      "mo = drop (k + length think_start_token) s"
    by (auto simp: think_start_stripped_def list_ex_iff)
  from first_at_find_first[OF k(1)] k(2) show ?thesis
    by (simp add: py_partition_def think_start_token_def)
qed

lemma startswith_strip: "(if startswith_nl c then py_slice_from c 1 else c) = strip_one_nl c"
  by (cases c) (auto simp: startswith_nl_def strip_one_nl_def py_slice_from_def py_bound_def)


lemma batch_present:
  assumes "think_start_stripped s mo" and "first_at think_end_token mo k"
  shows "extract_reasoning_content s =
    (Some (take k mo),
     or_none (let c0 = drop (k + length think_end_token) mo in
       if c0 \<noteq> [] \<and> py_find c0 response_start_token \<noteq> - 1
          \<and> py_rfind c0 response_end_token \<noteq> - 1
          \<and> py_find c0 response_start_token < py_rfind c0 response_end_token
       then strip_one_nl (py_slice c0 (py_find c0 response_start_token + int (length response_start_token))
                            (py_rfind c0 response_end_token))
       else c0))"
  using think_start_stripped_partition[OF assms(1)] first_at_find_first[OF assms(2)]
  by (simp add: extract_reasoning_content_def py_contains_def Let_def py_partition_def startswith_strip)

subsection \<open>Slices and searches at known positions\<close>

lemma py_find_first_at: "first_at sub s k \<Longrightarrow> py_find s sub = int k"
  by (simp add: py_find_def first_at_find_first)

lemma py_rfind_last_at: "last_at sub s k \<Longrightarrow> py_rfind s sub = int k"
  by (simp add: py_rfind_def last_at_find_last)

lemma py_find_found: "py_find s sub \<noteq> - 1 \<Longrightarrow> \<exists>k. py_find s sub = int k \<and> occurs_at sub s k"
  by (auto simp: py_find_def first_at_iff split: option.splits dest: find_first_Some)

lemma py_rfind_found: "py_rfind s sub \<noteq> - 1 \<Longrightarrow> \<exists>k. py_rfind s sub = int k \<and> occurs_at sub s k"
  by (auto simp: py_rfind_def last_at_iff split: option.splits dest: find_last_Some)

lemma py_slice_nat: "j \<le> length s \<Longrightarrow> py_slice s (int i) (int j) = take (j - i) (drop i s)"
  by (cases "i \<le> length s") (simp_all add: py_slice_def py_bound_def drop_take min_def)

lemma batch_narrowed:
  assumes "think_start_stripped s mo"
      and "first_at think_end_token mo k"
      and "c = drop (k + length think_end_token) mo"
      and "first_at response_start_token c i" and "last_at response_end_token c j" and "i < j"
  shows "extract_reasoning_content s =
              (Some (take k mo),
               or_none (strip_one_nl (take (j - (i + length response_start_token))
                                           (drop (i + length response_start_token) c))))"
proof -
  have f: "py_find c response_start_token = int i" and r: "py_rfind c response_end_token = int j"
    using assms(4,5) by (simp_all add: py_find_first_at py_rfind_last_at)
  from assms(5) have "occurs_at response_end_token c j" by (simp add: last_at_iff)
  then have jl: "j \<le> length c" by (rule occurs_at_le)
  from assms(6) jl have ne: "c \<noteq> []" by auto
  have sl: "py_slice c (int i + int (length response_start_token)) (int j)
          = take (j - (i + length response_start_token)) (drop (i + length response_start_token) c)"
    using py_slice_nat[OF jl, of "i + length response_start_token"] by simp
  from assms(6) f r ne sl show ?thesis
    unfolding batch_present[OF assms(1,2)] assms(3)[symmetric] Let_def by simp
qed

lemma batch_not_narrowed:
  assumes "think_start_stripped s mo"
      and "first_at think_end_token mo k"
      and "c = drop (k + length think_end_token) mo"
      and "\<forall>i j. occurs_at response_start_token c i \<and> occurs_at response_end_token c j \<longrightarrow> j \<le> i"
  shows "extract_reasoning_content s = (Some (take k mo), or_none c)"
proof -
  have "\<not> (py_find c response_start_token \<noteq> - 1 \<and> py_rfind c response_end_token \<noteq> - 1
           \<and> py_find c response_start_token < py_rfind c response_end_token)"
  proof
    assume a: "py_find c response_start_token \<noteq> - 1 \<and> py_rfind c response_end_token \<noteq> - 1
           \<and> py_find c response_start_token < py_rfind c response_end_token"
    then obtain i j where "py_find c response_start_token = int i" "occurs_at response_start_token c i"
        "py_rfind c response_end_token = int j" "occurs_at response_end_token c j"
      using py_find_found py_rfind_found by blast
    with a assms(4) show False by fastforce
  qed
  then show ?thesis
    unfolding batch_present[OF assms(1,2)] assms(3)[symmetric] Let_def by auto
qed

subsection \<open>Runs of streaming calls\<close>


lemma id_in_nonempty: "id_in x a \<Longrightarrow> a \<noteq> []"
  by (auto simp: id_in_def split: option.splits)

lemma streaming_never_raises:
  "extract_reasoning_content_streaming p pt ct dt pi ci di \<noteq> Inl e"
  by (auto simp: extract_reasoning_content_streaming_def Let_def dest: id_in_nonempty)



lemma absent_stripped: "absent think_start_token s \<Longrightarrow> think_start_stripped s s"
  by (simp add: think_start_stripped_def)


subsection \<open>What single streaming calls contribute\<close>







lemma lstrip_idem: "lstrip_nl (lstrip_nl s) = lstrip_nl s"
  by (simp add: lstrip_nl_def)







lemma ordinary_call:
  assumes "id_in (think_end_token_id p) pi" and "ordinary p di"
  shows "extract_reasoning_content_streaming p pt ct dt pi ci di
           = Inr (Some \<lparr> reasoning_content = None,
                content = or_none (if newline_rule p pi di then lstrip_nl dt else dt) \<rparr>)"
proof -
  from assms(1) have ne: "pi \<noteq> []" by (rule id_in_nonempty)
  from assms(2) have ns: "\<not> (length di = 1 \<and>
        Some (hd di) \<in> set [think_start_token_id p, think_end_token_id p,
                              response_start_token_id p, response_end_token_id p])"
    by (simp add: ordinary_def suppressed_def)
  from assms(2) have ni: "\<not> id_in (think_end_token_id p) di"
      "\<not> id_in (response_start_token_id p) di" "\<not> id_in (response_end_token_id p) di"
    by (simp_all add: ordinary_def)
  show ?thesis
    unfolding extract_reasoning_content_streaming_def Let_def
    using ne ns ni assms(1)
    by (auto simp: newline_rule_def lstrip_idem)
qed

















lemma nl_twice:
  "(if B then lstrip_nl (if A then lstrip_nl x else x) else (if A then lstrip_nl x else x))
     = (if A \<or> B then lstrip_nl x else x)"
  by (simp add: lstrip_idem)

lemma newline_rule_code:
  assumes "pi \<noteq> []"
  shows "((Some (last pi) \<in> set (parser_token_ids p)
            \<and> (length di > 0 \<and> Some (hd di) = newline_token_id p))
          \<or> ((length pi > 1 \<and> Some (pi ! (length pi - 2)) = think_end_token_id p)
            \<and> (length di > 0 \<and> Some (hd di) = newline_token_id p)))
         = newline_rule p pi di"
  using assms by (auto simp: newline_rule_def)








subsection \<open>Whole streams against batch extraction\<close>













subsection \<open>Calls and the vocabulary\<close>

lemma responding_untrimmed:
  assumes "id_in (think_end_token_id p) pi" and "\<not> id_in (think_end_token_id p) di"
      and "\<not> suppressed p di"
      and "\<not> id_in (response_start_token_id p) di"
      and "\<not> id_in (response_end_token_id p) di"
      and "\<not> newline_rule p pi di"
  shows "extract_reasoning_content_streaming p pt ct dt pi ci di
           = Inr (Some \<lparr> reasoning_content = None, content = or_none dt \<rparr>)"
proof -
  from assms have "ordinary p di" by (simp add: ordinary_def)
  from ordinary_call[OF assms(1) this] assms(6) show ?thesis by simp
qed

lemma crossing_vocabulary_free:
  assumes "id_in (think_end_token_id p) di" and "\<not> suppressed p di"
      and "id_in (think_end_token_id q) di" and "\<not> suppressed q di"
  shows "extract_reasoning_content_streaming p pt ct dt pi ci di
           = extract_reasoning_content_streaming q pt ct dt pi ci di"
  unfolding extract_reasoning_content_streaming_def suppressed_def[symmetric]
  using assms by simp

lemma init_example: "init (Some example_vocab) = Inr example_parser"
  by (simp add: init_def example_vocab_def example_parser_def token_defs Let_def)

lemma index_of_append: "te \<notin> set a \<Longrightarrow> index_of (Some te) (a @ te # b) = Some (length a)"
  by (induction a) auto

section \<open>Properties of the parser\<close>

subsection \<open>Batch scenarios\<close>

text \<open>
  C4 (as the code behaves). Batch extraction of \<open>"abc\n</think>\ndef"\<close> returns the
  reasoning content \<open>"abc\n"\<close> and the content \<open>"\ndef"\<close>: no response markers
  are present, so the content is not narrowed and its leading newline stays.
\<close>

theorem batch_scenario_B:
  "extract_reasoning_content ''abc\<newline></think>\<newline>def''
     = (Some ''abc\<newline>'', Some ''\<newline>def'')"
  by code_simp

text \<open>
  The content is not \<open>"def"\<close>: the newline after the end-of-think marker is kept.
\<close>

theorem batch_scenario_B_counterexample:
  "extract_reasoning_content ''abc\<newline></think>\<newline>def''
     \<noteq> (Some ''abc\<newline>'', Some ''def'')"
  by code_simp


text \<open>
  C5 (as the code behaves). Batch extraction of
  \<open>"abc\n</think>\n\n\n<tool_call>\nxyz\n</tool_call>\n"\<close> returns the reasoning
  content \<open>"abc\n"\<close> and, as content, everything after the end-of-think marker,
  with all three leading newlines and the tool-call markers untouched.
\<close>

theorem batch_scenario_C:
  "extract_reasoning_content
     ''abc\<newline></think>\<newline>\<newline>\<newline><tool_call>\<newline>xyz\<newline></tool_call>\<newline>''
     = (Some ''abc\<newline>'',
        Some ''\<newline>\<newline>\<newline><tool_call>\<newline>xyz\<newline></tool_call>\<newline>'')"
  by code_simp

text \<open>
  The content does not start with two newlines only: none of the three is removed.
\<close>

theorem batch_scenario_C_counterexample:
  "extract_reasoning_content
     ''abc\<newline></think>\<newline>\<newline>\<newline><tool_call>\<newline>xyz\<newline></tool_call>\<newline>''
     \<noteq> (Some ''abc\<newline>'',
        Some ''\<newline>\<newline><tool_call>\<newline>xyz\<newline></tool_call>\<newline>'')"
  by code_simp


subsection \<open>Batch extraction: narrowing to the response markers\<close>

text \<open>
  C3. Let \<open>mo\<close> be the model output with everything up to and including the first
  think_start marker dropped (if there is one), let the first think_end marker of
  \<open>mo\<close> be at position \<open>k\<close> and \<open>c\<close> be the text after it. If the first
  response_start marker of \<open>c\<close> is at \<open>i\<close>, the last response_end marker at \<open>j\<close>
  and \<open>i < j\<close>, the content returned is the text strictly between the two markers
  with one leading newline removed if present (absent when that is empty). If no
  response_start marker of \<open>c\<close> lies before a response_end marker, the content
  returned is \<open>c\<close> itself (absent when empty). In both cases the reasoning content
  is the text before the think_end marker, and a result is returned (the function has
  no failing branch).
\<close>

theorem batch_response_narrowing:
  assumes "think_start_stripped s mo"
      and "first_at think_end_token mo k"
      and "c = drop (k + length think_end_token) mo"
  shows "(first_at response_start_token c i \<and> last_at response_end_token c j \<and> i < j \<longrightarrow>
            extract_reasoning_content s =
              (Some (take k mo),
               or_none (strip_one_nl (take (j - (i + length response_start_token))
                                           (drop (i + length response_start_token) c)))))
       \<and> ((\<forall>i j. occurs_at response_start_token c i \<and> occurs_at response_end_token c j
                  \<longrightarrow> j \<le> i) \<longrightarrow>
            extract_reasoning_content s = (Some (take k mo), or_none c))"
  using batch_narrowed[OF assms] batch_not_narrowed[OF assms] by blast

text \<open>
  The full response format, and an output with the response markers in the wrong
  order.
\<close>

theorem batch_response_narrowing_witness:
  "extract_reasoning_content ''abc\<newline></think>\<newline>\<newline>\<newline><response>\<newline>def\<newline></response>\<newline>''
     = (Some ''abc\<newline>'', Some ''def\<newline>'')
   \<and> extract_reasoning_content ''a</think></response>x<response>''
     = (Some ''a'', Some ''</response>x<response>'')"
proof -
  let ?s = "''abc\<newline></think>\<newline>\<newline>\<newline><response>\<newline>def\<newline></response>\<newline>''"
  let ?c = "''\<newline>\<newline>\<newline><response>\<newline>def\<newline></response>\<newline>''"
  have a: "think_start_stripped ?s ?s" by code_simp
  have b: "first_at think_end_token ?s 4" by code_simp
  have c: "?c = drop (4 + length think_end_token) ?s" by (simp add: think_end_token_def)
  have d: "first_at response_start_token ?c 3 \<and> last_at response_end_token ?c 18 \<and> (3::nat) < 18"
    by code_simp
  have 1: "extract_reasoning_content ?s = (Some ''abc\<newline>'', Some ''def\<newline>'')"
    using batch_response_narrowing[OF a b c, of 3 18] d
    by (simp add: response_start_token_def or_none_def strip_one_nl_def)
  let ?t = "''a</think></response>x<response>''"
  let ?d = "''</response>x<response>''"
  have a': "think_start_stripped ?t ?t" by code_simp
  have b': "first_at think_end_token ?t 1" by code_simp
  have c': "?d = drop (1 + length think_end_token) ?t" by (simp add: think_end_token_def)
  have d': "\<forall>i j. occurs_at response_start_token ?d i \<and> occurs_at response_end_token ?d j \<longrightarrow> j \<le> i"
  proof (intro allI impI)
    fix i j assume h: "occurs_at response_start_token ?d i \<and> occurs_at response_end_token ?d j"
    have "last_at response_end_token ?d 0" by code_simp
    with h have "j = 0" by (metis last_at_iff not_gr_zero)
    then show "j \<le> i" by simp
  qed
  have 2: "extract_reasoning_content ?t = (Some ''a'', Some ?d)"
    using batch_response_narrowing[OF a' b' c'] d'
    by (simp add: or_none_def)
  from 1 2 show ?thesis by simp
qed


text \<open>
  C7. Batch extraction always returns a present reasoning content and never returns
  the empty string as content; when the think_end marker occurs (first at position
  \<open>k\<close> of the output after think_start stripping), the reasoning content is the text
  before it, which is the empty string, present, when \<open>k = 0\<close>, and the content is
  absent when nothing follows the marker.
\<close>

theorem batch_reasoning_present:
  "(\<exists>r. fst (extract_reasoning_content s) = Some r)
   \<and> snd (extract_reasoning_content s) \<noteq> Some []
   \<and> (think_start_stripped s mo \<and> first_at think_end_token mo k \<longrightarrow>
         fst (extract_reasoning_content s) = Some (take k mo)
         \<and> (k = 0 \<longrightarrow> fst (extract_reasoning_content s) = Some [])
         \<and> (drop (k + length think_end_token) mo = [] \<longrightarrow>
               snd (extract_reasoning_content s) = None))"
proof (intro conjI impI)
  show "\<exists>r. fst (extract_reasoning_content s) = Some r"
    by (simp add: extract_reasoning_content_def Let_def)
  show "snd (extract_reasoning_content s) \<noteq> Some []"
    by (simp add: extract_reasoning_content_def Let_def or_none_def)
next
  assume h: "think_start_stripped s mo \<and> first_at think_end_token mo k"
  then have e: "fst (extract_reasoning_content s) = Some (take k mo)"
    using batch_present[of s mo k] by simp
  then show "fst (extract_reasoning_content s) = Some (take k mo)" .
  { assume "k = 0" with e show "fst (extract_reasoning_content s) = Some []" by simp }
  { assume "drop (k + length think_end_token) mo = []"
    with h show "snd (extract_reasoning_content s) = None"
      using batch_present[of s mo k] by (simp add: or_none_def) }
qed

text \<open>The output that consists of the think_end marker alone.\<close>

theorem batch_reasoning_present_witness:
  "extract_reasoning_content ''</think>'' = (Some [], None)"
proof -
  have a: "think_start_stripped ''</think>'' ''</think>''" by code_simp
  have b: "first_at think_end_token ''</think>'' 0" by code_simp
  have c: "drop (0 + length think_end_token) ''</think>'' = []" by (simp add: think_end_token_def)
  from batch_reasoning_present[of "''</think>''" "''</think>''" 0] a b c
  show ?thesis by (simp add: prod_eq_iff)
qed


subsection \<open>Streaming against batch extraction\<close>




subsection \<open>Streaming: suppression of bare markers\<close>

text \<open>
  C6 (as the code behaves). A streaming call whose delta is exactly one token whose id
  is that of think_start, think_end, response_start or response_end returns \<open>None\<close>,
  the "no update" signal: no message is produced, so the marker is echoed on neither
  channel.
\<close>

theorem single_marker_token_suppressed:
  assumes "Some t \<in> {think_start_token_id p, think_end_token_id p,
                      response_start_token_id p, response_end_token_id p}"
  shows "extract_reasoning_content_streaming p previous_text current_text delta_text
           previous_token_ids current_token_ids [t] = Inr None"
  using assms by (simp add: extract_reasoning_content_streaming_def)

text \<open>The rule applied to a delta that is the end-of-think token alone.\<close>

theorem single_marker_token_suppressed_witness:
  "extract_reasoning_content_streaming example_parser ''abc'' ''abc</think>'' ''</think>''
     [100] [100, 2] [2] = Inr None"
proof -
  have "Some 2 \<in> {think_start_token_id example_parser, think_end_token_id example_parser,
                      response_start_token_id example_parser, response_end_token_id example_parser}"
    by (simp add: example_parser_def)
  from single_marker_token_suppressed[OF this] show ?thesis .
qed

text \<open>
  What is returned for a suppressed delta is not a message with both fields absent.
\<close>

theorem single_marker_token_no_record:
  "extract_reasoning_content_streaming example_parser ''abc'' ''abc</think>'' ''</think>''
     [100] [100, 2] [2] \<noteq> Inr (Some \<lparr> reasoning_content = None, content = None \<rparr>)"
  by code_simp


text \<open>
  C10. A delta that is exactly one token whose id is that of tool_call_start or
  tool_call_end (an id different from those of the four suppressed markers and of the
  newline token) is not suppressed: its text is returned as content (absent only if
  the text is empty) when the end-of-think id is among the previous ids, and as
  reasoning content otherwise.
\<close>

theorem tool_call_token_not_suppressed:
  assumes "tool_call_start_token_id p = Some t \<or> tool_call_end_token_id p = Some t"
      and "Some t \<notin> {think_start_token_id p, think_end_token_id p,
                      response_start_token_id p, response_end_token_id p, newline_token_id p}"
  shows "extract_reasoning_content_streaming p previous_text current_text delta_text
           previous_token_ids current_token_ids [t] =
         (if id_in (think_end_token_id p) previous_token_ids
          then Inr (Some \<lparr> reasoning_content = None, content = or_none delta_text \<rparr>)
          else Inr (Some \<lparr> reasoning_content = Some delta_text, content = None \<rparr>))"
proof -
  have ne: "id_in (think_end_token_id p) previous_token_ids \<Longrightarrow> previous_token_ids \<noteq> []"
    by (auto simp: id_in_def split: option.splits)
  from assms(2) have nd: "\<not> id_in (think_end_token_id p) [t]" "\<not> id_in (response_start_token_id p) [t]"
     "\<not> id_in (response_end_token_id p) [t]"
    by (auto simp: id_in_def split: option.splits)
  from assms(2) nd ne show ?thesis
    by (auto simp: extract_reasoning_content_streaming_def Let_def)
qed

text \<open>
  The tool-call start token after the end of thinking, and the tool-call end token
  while thinking.
\<close>

theorem tool_call_token_not_suppressed_witness:
  "extract_reasoning_content_streaming example_parser ''abc</think>'' ''abc</think><tool_call>''
      ''<tool_call>'' [100, 2] [100, 2, 5] [5]
     = Inr (Some \<lparr> reasoning_content = None, content = Some ''<tool_call>'' \<rparr>)
   \<and> extract_reasoning_content_streaming example_parser ''abc'' ''abc</tool_call>''
      ''</tool_call>'' [100] [100, 6] [6]
     = Inr (Some \<lparr> reasoning_content = Some ''</tool_call>'', content = None \<rparr>)"
proof -
  have a: "tool_call_start_token_id example_parser = Some 5 \<or> tool_call_end_token_id example_parser = Some 5"
       "tool_call_start_token_id example_parser = Some 6 \<or> tool_call_end_token_id example_parser = Some 6"
    by (simp_all add: example_parser_def)
  have b: "Some 5 \<notin> {think_start_token_id example_parser, think_end_token_id example_parser,
                      response_start_token_id example_parser, response_end_token_id example_parser,
                      newline_token_id example_parser}"
     "Some 6 \<notin> {think_start_token_id example_parser, think_end_token_id example_parser,
                      response_start_token_id example_parser, response_end_token_id example_parser,
                      newline_token_id example_parser}"
    by (simp_all add: example_parser_def)
  have c: "id_in (think_end_token_id example_parser) [100, 2]" "\<not> id_in (think_end_token_id example_parser) [100]"
    by (simp_all add: example_parser_def id_in_def)
  show ?thesis
    using tool_call_token_not_suppressed[OF a(1) b(1), of "''abc</think>''" "''abc</think><tool_call>''" "''<tool_call>''" "[100, 2]" "[100, 2, 5]"]
          tool_call_token_not_suppressed[OF a(2) b(2), of "''abc''" "''abc</tool_call>''" "''</tool_call>''" "[100]" "[100, 6]"]
          c
    by (simp add: or_none_def)
qed


subsection \<open>Streaming: the delta that carries the end-of-think token\<close>

text \<open>
  C2 (the code at a failing input). The delta \<open>"abc</think><response>def</response>"\<close>
  carries the end-of-think token together with both response markers. The position
  of \<open></response>\<close> is computed before the text up to \<open><response>\<close> is cut
  off and is used after, so the cut happens ten characters too far to the right: the
  content returned is \<open>"def</response"\<close>, not \<open>"def"\<close>.
\<close>

theorem crossing_stale_response_end_index:
  "extract_reasoning_content_streaming example_parser '''' ''abc</think><response>def</response>''
     ''abc</think><response>def</response>'' [] [100, 2, 3, 101, 4] [100, 2, 3, 101, 4]
   = Inr (Some \<lparr> reasoning_content = Some ''abc'', content = Some ''def</response'' \<rparr>)"
  by code_simp


subsection \<open>Construction\<close>

text \<open>
  C8 (as the code behaves). Given a tokenizer with vocabulary \<open>vocab\<close>, construction
  fails exactly when \<open>vocab\<close> does not resolve think_start or does not resolve
  think_end, and then with \<open>RuntimeError\<close>. When it succeeds, every id of the parser
  is the result of the lookup, so a marker missing from the vocabulary has no id and
  does not prevent construction. An unresolved marker switches off only the test of
  its id in a call after the end of thinking: when, for each of response_start,
  response_end and newline, the marker is unresolved or its test does not apply to the
  delta, such a call returns the delta text unchanged as content. A call whose delta
  carries the think_end id depends on the text only: it returns the same for any two
  constructed parsers (and batch extraction does not use the vocabulary at all), so
  the narrowing to literal response markers and the newline stripping performed there
  are not switched off.
\<close>

theorem init_fails_iff:
  "((\<exists>e. init (Some vocab) = Inl e) \<longleftrightarrow>
      (vocab think_start_token = None \<or> vocab think_end_token = None))
   \<and> (\<forall>e. init (Some vocab) = Inl e \<longrightarrow> e = RuntimeError)
   \<and> (\<forall>p. init (Some vocab) = Inr p \<longrightarrow>
         think_start_token_id p = vocab think_start_token \<and>
         think_end_token_id p = vocab think_end_token \<and>
         response_start_token_id p = vocab response_start_token \<and>
         response_end_token_id p = vocab response_end_token \<and>
         tool_call_start_token_id p = vocab tool_call_start_token \<and>
         tool_call_end_token_id p = vocab tool_call_end_token \<and>
         newline_token_id p = vocab newline_token \<and>
         parser_token_ids p = [vocab think_start_token, vocab think_end_token,
            vocab response_start_token, vocab response_end_token,
            vocab tool_call_start_token, vocab tool_call_end_token] \<and>
         (id_in (think_end_token_id p) pi \<and> \<not> id_in (think_end_token_id p) di
            \<and> \<not> suppressed p di
            \<and> (vocab response_start_token = None \<or> \<not> id_in (vocab response_start_token) di)
            \<and> (vocab response_end_token = None \<or> \<not> id_in (vocab response_end_token) di)
            \<and> (vocab newline_token = None \<or> \<not> newline_rule p pi di) \<longrightarrow>
          extract_reasoning_content_streaming p pt ct dt pi ci di
            = Inr (Some \<lparr> reasoning_content = None, content = or_none dt \<rparr>)) \<and>
         (\<forall>vocab' q. init (Some vocab') = Inr q
            \<and> id_in (think_end_token_id p) di \<and> \<not> suppressed p di
            \<and> id_in (think_end_token_id q) di \<and> \<not> suppressed q di \<longrightarrow>
          extract_reasoning_content_streaming p pt ct dt pi ci di
            = extract_reasoning_content_streaming q pt ct dt pi ci di))"
proof (intro conjI allI impI)
  fix p assume p: "init (Some vocab) = Inr p"
  then show f: "think_start_token_id p = vocab think_start_token"
       "think_end_token_id p = vocab think_end_token"
       "response_start_token_id p = vocab response_start_token"
       "response_end_token_id p = vocab response_end_token"
       "tool_call_start_token_id p = vocab tool_call_start_token"
       "tool_call_end_token_id p = vocab tool_call_end_token"
       "newline_token_id p = vocab newline_token"
       "parser_token_ids p = [vocab think_start_token, vocab think_end_token,
            vocab response_start_token, vocab response_end_token,
            vocab tool_call_start_token, vocab tool_call_end_token]"
    by (auto simp: init_def Let_def split: if_splits)
  { assume h: "id_in (think_end_token_id p) pi \<and> \<not> id_in (think_end_token_id p) di
            \<and> \<not> suppressed p di
            \<and> (vocab response_start_token = None \<or> \<not> id_in (vocab response_start_token) di)
            \<and> (vocab response_end_token = None \<or> \<not> id_in (vocab response_end_token) di)
            \<and> (vocab newline_token = None \<or> \<not> newline_rule p pi di)"
    then have "\<not> id_in (response_start_token_id p) di" "\<not> id_in (response_end_token_id p) di"
        "\<not> newline_rule p pi di"
      using f by (auto simp: id_in_def newline_rule_def)
    with h show "extract_reasoning_content_streaming p pt ct dt pi ci di
            = Inr (Some \<lparr> reasoning_content = None, content = or_none dt \<rparr>)"
      using responding_untrimmed[of p pi di] by blast }
  { fix vocab' q
    assume "init (Some vocab') = Inr q
            \<and> id_in (think_end_token_id p) di \<and> \<not> suppressed p di
            \<and> id_in (think_end_token_id q) di \<and> \<not> suppressed q di"
    then show "extract_reasoning_content_streaming p pt ct dt pi ci di
            = extract_reasoning_content_streaming q pt ct dt pi ci di"
      using crossing_vocabulary_free[of p di q] by blast }
qed (auto simp: init_def Let_def split: if_splits)

text \<open>
  The vocabulary with the two mandatory markers only constructs
  \<open>minimal_parser\<close>, which passes \<open><response>\<close> on as content after the end of
  thinking and agrees with \<open>example_parser\<close> on a delta that carries the think_end
  id; the empty vocabulary fails.
\<close>

theorem init_fails_iff_witness:
  "init (Some minimal_vocab) = Inr minimal_parser
   \<and> init (Some Map.empty) = Inl RuntimeError
   \<and> extract_reasoning_content_streaming minimal_parser ''a</think>'' ''a</think><response>''
        ''<response>'' [100, 2] [100, 2, 3] [3]
      = Inr (Some \<lparr> reasoning_content = None, content = Some ''<response>'' \<rparr>)
   \<and> extract_reasoning_content_streaming minimal_parser []
        ''a</think>\<newline><response>b'' ''a</think>\<newline><response>b''
        [] [100, 2, 101, 102, 103] [100, 2, 101, 102, 103]
      = extract_reasoning_content_streaming example_parser []
        ''a</think>\<newline><response>b'' ''a</think>\<newline><response>b''
        [] [100, 2, 101, 102, 103] [100, 2, 101, 102, 103]"
proof -
  let ?di = "[100, 2, 101, 102, 103::int]"
  have a: "minimal_vocab think_start_token = Some 1" "minimal_vocab think_end_token = Some 2"
       "minimal_vocab response_start_token = None" "minimal_vocab response_end_token = None"
       "minimal_vocab tool_call_start_token = None" "minimal_vocab tool_call_end_token = None"
       "minimal_vocab newline_token = None"
    by (simp_all add: minimal_vocab_def token_defs)
  note t = init_fails_iff[where vocab = minimal_vocab and pi = "[100, 2]" and di = "[3]"
      and pt = "''a</think>''" and ct = "''a</think><response>''" and dt = "''<response>''"
      and ci = "[100, 2, 3]"]
  from a t obtain p where p: "init (Some minimal_vocab) = Inr p"
    by (cases "init (Some minimal_vocab)") auto
  from t p a have "p = minimal_parser"
    by (intro Ernie45ReasoningParser.equality) (simp_all add: minimal_parser_def)
  with p have 1: "init (Some minimal_vocab) = Inr minimal_parser" by simp
  from init_fails_iff[where vocab = Map.empty] have 2: "init (Some Map.empty) = Inl RuntimeError"
    by (cases "init (Some Map.empty)") auto
  have c: "id_in (think_end_token_id minimal_parser) [100, 2]"
      "\<not> id_in (think_end_token_id minimal_parser) [3]"
      "\<not> suppressed minimal_parser [3]"
    by code_simp+
  from t 1 a c have 3: "extract_reasoning_content_streaming minimal_parser ''a</think>''
        ''a</think><response>'' ''<response>'' [100, 2] [100, 2, 3] [3]
      = Inr (Some \<lparr> reasoning_content = None, content = Some ''<response>'' \<rparr>)"
    by (simp add: or_none_def)
  note u = init_fails_iff[where vocab = minimal_vocab and di = ?di and pt = "[]"
      and ct = "''a</think>\<newline><response>b''" and dt = "''a</think>\<newline><response>b''"
      and pi = "[]" and ci = ?di]
  have d: "id_in (think_end_token_id minimal_parser) ?di" "\<not> suppressed minimal_parser ?di"
      "id_in (think_end_token_id example_parser) ?di" "\<not> suppressed example_parser ?di"
    by code_simp+
  from u 1 init_example d have 4: "extract_reasoning_content_streaming minimal_parser []
        ''a</think>\<newline><response>b'' ''a</think>\<newline><response>b'' [] ?di ?di
      = extract_reasoning_content_streaming example_parser []
        ''a</think>\<newline><response>b'' ''a</think>\<newline><response>b'' [] ?di ?di"
    by blast
  from 1 2 3 4 show ?thesis by simp
qed

text \<open>
  With the response and newline markers unresolved, the delta carrying the think_end
  id still has its newline and the text up to \<open><response>\<close> removed, and batch
  extraction still narrows to the response markers.
\<close>

theorem unresolved_markers_still_segmented:
  "init (Some minimal_vocab) = Inr minimal_parser
   \<and> extract_reasoning_content_streaming minimal_parser []
       ''a</think>\<newline><response>b'' ''a</think>\<newline><response>b''
       [] [100, 2, 101, 102, 103] [100, 2, 101, 102, 103]
     = Inr (Some \<lparr> reasoning_content = Some ''a'', content = Some ''b'' \<rparr>)
   \<and> extract_reasoning_content ''a</think>\<newline><response>\<newline>b</response>''
     = (Some ''a'', Some ''b'')"
  by (simp add: init_def minimal_vocab_def minimal_parser_def token_defs Let_def, code_simp)


subsection \<open>Boundary utilities\<close>

text \<open>
  C9. With \<open>te\<close> the id of think_end: on a sequence in which \<open>te\<close> occurs first
  at some position that is not the last, \<open>extract_content_ids\<close> returns the
  suffix strictly after that first occurrence; on a sequence in which \<open>te\<close> does not
  occur before the final position it returns the empty sequence, in particular when
  the only occurrence of \<open>te\<close> is the last token.
\<close>

theorem extract_content_ids_suffix:
  assumes "think_end_token_id p = Some te"
  shows "(te \<notin> set a \<and> b \<noteq> [] \<longrightarrow> extract_content_ids p (a @ te # b) = Inr b)
       \<and> (te \<notin> set (butlast ids) \<longrightarrow> extract_content_ids p ids = Inr [])
       \<and> (te \<notin> set a \<longrightarrow> extract_content_ids p (a @ [te]) = Inr [])
       \<and> (te \<in> set (butlast ids) \<longrightarrow>
            (\<exists>a b. ids = a @ te # b \<and> te \<notin> set a \<and> extract_content_ids p ids = Inr b))"
proof (intro conjI impI)
  assume h: "te \<in> set (butlast ids)"
  then obtain a b' where ab: "butlast ids = a @ te # b'" "te \<notin> set a"
    by (meson split_list_first)
  from h have "ids \<noteq> []" by auto
  then have "ids = butlast ids @ [last ids]" by simp
  with ab(1) have ids: "ids = a @ te # (b' @ [last ids])" by simp
  have "extract_content_ids p (a @ te # (b' @ [last ids])) = Inr (b' @ [last ids])"
    using assms ab(2)
    by (auto simp: extract_content_ids_def id_in_def butlast_append index_of_append)
  with ids ab(2) show "\<exists>a b. ids = a @ te # b \<and> te \<notin> set a \<and> extract_content_ids p ids = Inr b"
    by metis
qed (use assms in \<open>auto simp: extract_content_ids_def id_in_def butlast_append index_of_append\<close>)

text \<open>The three cases on concrete sequences.\<close>

theorem extract_content_ids_suffix_witness:
  "extract_content_ids example_parser [100, 2, 101, 2, 102] = Inr [101, 2, 102]
   \<and> extract_content_ids example_parser [100, 101] = Inr []
   \<and> extract_content_ids example_parser [100, 2] = Inr []"
proof -
  have te: "think_end_token_id example_parser = Some 2" by (simp add: example_parser_def)
  have 1: "extract_content_ids example_parser ([100] @ 2 # [101, 2, 102]) = Inr [101, 2, 102]"
    using extract_content_ids_suffix[OF te, of "[100]" "[101, 2, 102]"] by simp
  have 2: "extract_content_ids example_parser [100, 101] = Inr []"
    using extract_content_ids_suffix[OF te, of _ _ "[100, 101]"] by simp
  have 3: "extract_content_ids example_parser ([100] @ [2]) = Inr []"
    using extract_content_ids_suffix[OF te, of "[100]"] by simp
  from 1 2 3 show ?thesis by simp
qed


end
